theory Spec2Isabelle
  imports Main
begin

section \<open>Annotations\<close>

text \<open>
  The data model of \<^verbatim>\<open>src/lib/types.ts\<close>.  Offsets are JavaScript numbers that
  only ever hold integers (they come from \<^verbatim>\<open>parseInt\<close>, from text lengths and from
  integer arithmetic on these), so they are modelled as \<^typ>\<open>int\<close>.  Strings are
  character lists; a character stands for one code unit of the JavaScript string.
\<close>

datatype AnnotationKind = range_kind | point_kind

record Annotation =
  id_ann :: string
  kind :: AnnotationKind
  selectedText :: string
  note_ann :: string
  markdownStartOffset :: int
  markdownEndOffset :: int
  createdAt :: int

subsection \<open>Sorting with a comparator\<close>

text \<open>
  \<^verbatim>\<open>[...xs].sort(cmp)\<close>: the copy of the array, sorted by the comparator.  The
  language standard makes the sort stable, so for the comparators of this program (the
  difference of two integer keys) the result is the stable insertion sort below:
  \<^verbatim>\<open>cmp(x, y) <= 0\<close> keeps \<open>x\<close> in front of \<open>y\<close>.
\<close>

fun insert_by :: "('a \<Rightarrow> 'a \<Rightarrow> int) \<Rightarrow> 'a \<Rightarrow> 'a list \<Rightarrow> 'a list" where
  "insert_by cmp x [] = [x]"
| "insert_by cmp x (y # ys) = (if cmp x y \<le> 0 then x # y # ys else y # insert_by cmp x ys)"

definition sort_js :: "('a \<Rightarrow> 'a \<Rightarrow> int) \<Rightarrow> 'a list \<Rightarrow> 'a list" where
  "sort_js cmp xs = foldr (insert_by cmp) xs []"

subsection \<open>Shifting offsets after an edit\<close>

text \<open>
  \<^verbatim>\<open>shiftAnnotations\<close> of \<^verbatim>\<open>src/hooks/useAnnotations.ts\<close>: the function it hands
  to \<^verbatim>\<open>setAnnotations\<close>, applied to the previous list \<open>prev\<close>.  The source filters,
  maps to an annotation or \<^verbatim>\<open>null\<close>, and filters the \<^verbatim>\<open>null\<close>s out; the model
  does the same with \<^typ>\<open>Annotation option\<close>.
\<close>

definition shiftAnnotations :: "int \<Rightarrow> int \<Rightarrow> int \<Rightarrow> Annotation list \<Rightarrow> Annotation list" where
  "shiftAnnotations editStart editEnd newLength prev =
    (let delta = newLength - (editEnd - editStart) in
      map the
        (filter (\<lambda>a. a \<noteq> None)
          (map (\<lambda>a.
              if markdownEndOffset a \<le> editStart then Some a
              else if markdownStartOffset a \<ge> editEnd then
                Some (a\<lparr>markdownStartOffset := markdownStartOffset a + delta,
                         markdownEndOffset := markdownEndOffset a + delta\<rparr>)
              else None)
            (filter (\<lambda>a. \<not> (markdownStartOffset a \<ge> editStart \<and> markdownEndOffset a \<le> editEnd))
              prev))))"

text \<open>
  The four cases of the offset shifter as the specification words them, each a predicate
  on one annotation and one edit.
\<close>

definition fully_contained :: "int \<Rightarrow> int \<Rightarrow> Annotation \<Rightarrow> bool" where
  "fully_contained editStart editEnd a =
    (markdownStartOffset a \<ge> editStart \<and> markdownEndOffset a \<le> editEnd)"

definition fully_before :: "int \<Rightarrow> int \<Rightarrow> Annotation \<Rightarrow> bool" where
  "fully_before editStart editEnd a = (markdownEndOffset a \<le> editStart)"

definition fully_after :: "int \<Rightarrow> int \<Rightarrow> Annotation \<Rightarrow> bool" where
  "fully_after editStart editEnd a = (markdownStartOffset a \<ge> editEnd)"

definition partial_overlap :: "int \<Rightarrow> int \<Rightarrow> Annotation \<Rightarrow> bool" where
  "partial_overlap editStart editEnd a =
    (\<not> fully_contained editStart editEnd a \<and> \<not> fully_before editStart editEnd a
      \<and> \<not> fully_after editStart editEnd a)"

definition shifted :: "int \<Rightarrow> Annotation \<Rightarrow> Annotation" where
  "shifted delta a = a\<lparr>markdownStartOffset := markdownStartOffset a + delta,
                        markdownEndOffset := markdownEndOffset a + delta\<rparr>"

text \<open>
  The tests of \<open>shiftAnnotations\<close> in the order the code makes them: the first filter drops
  the contained annotations, then the map keeps, shifts or drops what is left.
\<close>

datatype shift_case = Contained | Before | After | Partial

definition classify :: "int \<Rightarrow> int \<Rightarrow> Annotation \<Rightarrow> shift_case" where
  "classify editStart editEnd a =
    (if markdownStartOffset a \<ge> editStart \<and> markdownEndOffset a \<le> editEnd then Contained
     else if markdownEndOffset a \<le> editStart then Before
     else if markdownStartOffset a \<ge> editEnd then After
     else Partial)"

definition outcome :: "int \<Rightarrow> int \<Rightarrow> int \<Rightarrow> Annotation \<Rightarrow> Annotation option" where
  "outcome editStart editEnd newLength a =
    (case classify editStart editEnd a of
       Contained \<Rightarrow> None
     | Before \<Rightarrow> Some a
     | After \<Rightarrow> Some (shifted (newLength - (editEnd - editStart)) a)
     | Partial \<Rightarrow> None)"


text \<open>An annotation with the given id, kind and offsets, for the examples.\<close>

definition annotation_at :: "string \<Rightarrow> AnnotationKind \<Rightarrow> int \<Rightarrow> int \<Rightarrow> Annotation" where
  "annotation_at i k s e =
    \<lparr>id_ann = i, kind = k, selectedText = [], note_ann = [],
      markdownStartOffset = s, markdownEndOffset = e, createdAt = 0\<rparr>"

text \<open>An annotation whose offsets are indices into a text of the given length.\<close>

definition valid_offsets :: "int \<Rightarrow> Annotation \<Rightarrow> bool" where
  "valid_offsets len a =
    (0 \<le> markdownStartOffset a \<and> markdownStartOffset a \<le> markdownEndOffset a
      \<and> markdownEndOffset a \<le> len)"

subsection \<open>Export\<close>

text \<open>
  \<^verbatim>\<open>s.slice(b, e)\<close> and \<^verbatim>\<open>s.slice(b)\<close> of JavaScript strings: a negative index
  counts from the end, and every index is clamped to the string.
\<close>

definition slice_index :: "nat \<Rightarrow> int \<Rightarrow> nat" where
  "slice_index len i = (if i < 0 then nat (max (int len + i) 0) else nat (min i (int len)))"

definition slice :: "string \<Rightarrow> int \<Rightarrow> int \<Rightarrow> string" where
  "slice s b e =
    (let lo = slice_index (length s) b; hi = slice_index (length s) e
     in if lo \<ge> hi then [] else take (hi - lo) (drop lo s))"

definition slice_from :: "string \<Rightarrow> int \<Rightarrow> string" where
  "slice_from s b = drop (slice_index (length s) b) s"

text \<open>\<^verbatim>\<open>generateExport\<close> (\<^verbatim>\<open>src/lib/export.ts\<close>); the loop over \<^verbatim>\<open>sorted\<close> is a left fold.\<close>

definition generateExport :: "string \<Rightarrow> Annotation list \<Rightarrow> string" where
  "generateExport markdown annotations =
    (if length annotations = 0 then markdown
     else
      foldl (\<lambda>result ann.
          let note = ''{'' @ note_ann ann @ ''}'' in
          if kind ann = point_kind then
            slice result 0 (markdownStartOffset ann) @ note
              @ slice_from result (markdownStartOffset ann)
          else
            slice result 0 (markdownEndOffset ann) @ '' '' @ note
              @ slice_from result (markdownEndOffset ann))
        markdown
        (sort_js (\<lambda>a b. markdownStartOffset b - markdownStartOffset a) annotations))"

text \<open>
  One round of that loop with the slices written as \<open>take\<close> and \<open>drop\<close>, which they
  are for a non-negative index: \<open>note_text\<close> is the sequence that goes in and
  \<open>insertion_offset\<close> the index it goes in at.
\<close>

definition note_text :: "Annotation \<Rightarrow> string" where
  "note_text a =
    (case kind a of
       range_kind \<Rightarrow> '' {'' @ note_ann a @ ''}''
     | point_kind \<Rightarrow> ''{'' @ note_ann a @ ''}'')"

definition insertion_offset :: "Annotation \<Rightarrow> int" where
  "insertion_offset a =
    (case kind a of range_kind \<Rightarrow> markdownEndOffset a | point_kind \<Rightarrow> markdownStartOffset a)"

definition insert_at :: "nat \<Rightarrow> string \<Rightarrow> string \<Rightarrow> string" where
  "insert_at k ins t = take k t @ ins @ drop k t"

definition export_round :: "string \<Rightarrow> Annotation \<Rightarrow> string" where
  "export_round result a = insert_at (nat (insertion_offset a)) (note_text a) result"

text \<open>
  The export format as the specification words it, to compare \<open>generateExport\<close> with.
  The indices are indices of the source text: at index \<open>k\<close> of the source stand the
  notes of the annotations whose insertion index is \<open>k\<close> (\<open>end\<close> for a range
  annotation, \<open>start\<close> for a point annotation), and then the character of the source at
  \<open>k\<close>.  The annotations are taken in descending order of start, each note put in
  immediately at its index, so of two notes at one index the one taken later stands
  first.
\<close>

definition notes_at :: "Annotation list \<Rightarrow> nat \<Rightarrow> string" where
  "notes_at taken k =
    concat (map note_text (rev (filter (\<lambda>a. insertion_offset a = int k) taken)))"

definition insert_notes :: "(nat \<Rightarrow> string) \<Rightarrow> string \<Rightarrow> string" where
  "insert_notes notes t = concat (map (\<lambda>k. notes k @ take 1 (drop k t)) [0..<Suc (length t)])"

definition format_spec :: "string \<Rightarrow> Annotation list \<Rightarrow> string" where
  "format_spec t anns = insert_notes (notes_at (sort_key (\<lambda>a. - markdownStartOffset a) anns)) t"

text \<open>The two range annotations of the examples of the export, one inside the other.\<close>

definition outer_note :: Annotation where
  "outer_note = (annotation_at ''1'' range_kind 13 27)\<lparr>note_ann := ''outer''\<rparr>"

definition inner_note :: Annotation where
  "inner_note = (annotation_at ''2'' range_kind 18 22)\<lparr>note_ann := ''inner''\<rparr>"

subsection \<open>The annotation store\<close>

text \<open>
  The state of the hook \<^verbatim>\<open>useAnnotations\<close>: the two \<^verbatim>\<open>useState\<close> cells.  Each
  callback is a function on this state.  \<^verbatim>\<open>uuidv4()\<close> and \<^verbatim>\<open>Date.now()\<close> are
  read from the environment, so \<open>addAnnotation\<close> takes their values as arguments.
\<close>

record AnnotationStore =
  annotations :: "Annotation list"
  activeAnnotationId :: "string option"

definition initialStore :: AnnotationStore where
  "initialStore = \<lparr>annotations = [], activeAnnotationId = None\<rparr>"

definition addAnnotation ::
  "string \<Rightarrow> int \<Rightarrow> string \<Rightarrow> string \<Rightarrow> int \<Rightarrow> int \<Rightarrow> AnnotationKind \<Rightarrow> AnnotationStore \<Rightarrow> AnnotationStore" where
  "addAnnotation uuid now text note startOffset endOffset k st =
    st\<lparr>annotations := annotations st @
      [\<lparr>id_ann = uuid, kind = k, selectedText = text, note_ann = note,
        markdownStartOffset = startOffset, markdownEndOffset = endOffset, createdAt = now\<rparr>]\<rparr>"

definition updateAnnotation :: "string \<Rightarrow> string \<Rightarrow> AnnotationStore \<Rightarrow> AnnotationStore" where
  "updateAnnotation i note st =
    st\<lparr>annotations := map (\<lambda>a. if id_ann a = i then a\<lparr>note_ann := note\<rparr> else a) (annotations st)\<rparr>"

definition deleteAnnotation :: "string \<Rightarrow> AnnotationStore \<Rightarrow> AnnotationStore" where
  "deleteAnnotation i st =
    st\<lparr>annotations := filter (\<lambda>a. id_ann a \<noteq> i) (annotations st),
       activeAnnotationId := (if activeAnnotationId st = Some i then None else activeAnnotationId st)\<rparr>"

definition sortedAnnotations :: "AnnotationStore \<Rightarrow> Annotation list" where
  "sortedAnnotations st =
    sort_js (\<lambda>a b. markdownStartOffset a - markdownStartOffset b) (annotations st)"

text \<open>A run of the store: the operations a caller can issue, applied in turn.\<close>

datatype StoreOp =
    AddAnnotation string int string string int int AnnotationKind
  | UpdateAnnotation string string
  | DeleteAnnotation string
  | ShiftAnnotations int int int
  | SetActiveAnnotationId "string option"

fun apply_op :: "AnnotationStore \<Rightarrow> StoreOp \<Rightarrow> AnnotationStore" where
  "apply_op st (AddAnnotation uuid now text note s e k) = addAnnotation uuid now text note s e k st"
| "apply_op st (UpdateAnnotation i note) = updateAnnotation i note st"
| "apply_op st (DeleteAnnotation i) = deleteAnnotation i st"
| "apply_op st (ShiftAnnotations editStart editEnd newLength) =
    st\<lparr>annotations := shiftAnnotations editStart editEnd newLength (annotations st)\<rparr>"
| "apply_op st (SetActiveAnnotationId i) = st\<lparr>activeAnnotationId := i\<rparr>"

definition run :: "StoreOp list \<Rightarrow> AnnotationStore" where
  "run ops = foldl apply_op initialStore ops"

text \<open>The values \<^verbatim>\<open>Date.now()\<close> returned to the creations of a run, in order.\<close>

fun clock_readings :: "StoreOp list \<Rightarrow> int list" where
  "clock_readings [] = []"
| "clock_readings (AddAnnotation uuid now text note s e k # ops) = now # clock_readings ops"
| "clock_readings (_ # ops) = clock_readings ops"

text \<open>The display order of the specification: by start, ties by creation time.\<close>

definition display_le :: "Annotation \<Rightarrow> Annotation \<Rightarrow> bool" where
  "display_le a b =
    (markdownStartOffset a < markdownStartOffset b
      \<or> (markdownStartOffset a = markdownStartOffset b \<and> createdAt a \<le> createdAt b))"

section \<open>The rendered document\<close>

text \<open>
  The rendered markdown is a DOM tree.  Of an element the program reads and writes the
  tag name, the attributes \<^verbatim>\<open>data-source-start\<close>, \<^verbatim>\<open>data-source-end\<close>,
  \<^verbatim>\<open>data-annotation-id\<close> and \<^verbatim>\<open>data-point-annotation-id\<close>, and the styling of an
  active marker; a text node has its data.  An attribute that is absent is \<open>None\<close>.  The
  source positions are written by \<^verbatim>\<open>rehypeSourcePositions\<close> from numeric offsets, so
  \<^verbatim>\<open>parseInt\<close> of them is the integer held here.  Tag names are compared in lower case.
\<close>

record ElementData =
  tagName :: string
  dataSourceStart :: "int option"
  dataSourceEnd :: "int option"
  dataAnnotationId :: "string option"
  dataPointAnnotationId :: "string option"
  active :: bool

datatype Node = Text string | Element ElementData "Node list"





text \<open>
  \<^verbatim>\<open>parent.normalize()\<close> on the child list of \<open>parent\<close>: in the whole subtree, empty
  text nodes go and adjacent text nodes are joined.
\<close>

fun cons_text :: "string \<Rightarrow> Node list \<Rightarrow> Node list" where
  "cons_text t (Text u # cs) = (if t = [] then Text u # cs else Text (t @ u) # cs)"
| "cons_text t cs = (if t = [] then cs else Text t # cs)"

fun normalize_dom :: "Node list \<Rightarrow> Node list" where
  "normalize_dom [] = []"
| "normalize_dom (Text t # cs) = cons_text t (normalize_dom cs)"
| "normalize_dom (Element d ds # cs) = Element d (normalize_dom ds) # normalize_dom cs"




subsection \<open>Removing the markers of the previous call\<close>






subsection \<open>Wrapping a range annotation\<close>








subsection \<open>Inserting a point marker\<close>







subsection \<open>Highlight projection\<close>






section \<open>Mapping a selection to source offsets\<close>

text \<open>
  \<^verbatim>\<open>src/lib/selection.ts\<close> holds on to nodes of the document and walks from a node to
  its ancestors.  A node is named by its place in the document: the child indices on the
  way from the node up to the root, nearest first, so that the tail of a reference is
  the reference of the parent and the root is \<open>[]\<close>.
\<close>

type_synonym NodeRef = "nat list"

primrec nodeAt :: "Node \<Rightarrow> nat list \<Rightarrow> Node option" where
  "nodeAt n [] = Some n"
| "nodeAt n (i # path) =
    (case n of
       Text t \<Rightarrow> None
     | Element d cs \<Rightarrow> if i < length cs then nodeAt (cs ! i) path else None)"

definition resolve :: "Node \<Rightarrow> NodeRef \<Rightarrow> Node option" where
  "resolve doc r = nodeAt doc (rev r)"

definition elementAt :: "Node \<Rightarrow> NodeRef \<Rightarrow> (ElementData \<times> Node list) option" where
  "elementAt doc r =
    (case resolve doc r of Some (Element d cs) \<Rightarrow> Some (d, cs) | _ \<Rightarrow> None)"

text \<open>\<^verbatim>\<open>el.contains(node)\<close>: the node is \<open>el\<close> or a descendant of it.\<close>

definition contains :: "NodeRef \<Rightarrow> NodeRef \<Rightarrow> bool" where
  "contains el node = (length el \<le> length node \<and> drop (length node - length el) node = el)"

text \<open>
  \<^verbatim>\<open>getTextOffsetInElement\<close>: the walker visits the text nodes below \<open>root\<close> in
  document order (\<open>textRefs\<close> lists them with their references, for the child list
  \<open>cs\<close> of \<open>root\<close>); the count stops at the target node, or runs to the end when the
  target is no text node below \<open>root\<close>.
\<close>

fun textRefs :: "NodeRef \<Rightarrow> nat \<Rightarrow> Node list \<Rightarrow> (NodeRef \<times> string) list" where
  "textRefs parent i [] = []"
| "textRefs parent i (Text t # cs) = (i # parent, t) # textRefs parent (Suc i) cs"
| "textRefs parent i (Element d ds # cs) = textRefs (i # parent) 0 ds @ textRefs parent (Suc i) cs"

fun countUpTo :: "NodeRef \<Rightarrow> int \<Rightarrow> int \<Rightarrow> (NodeRef \<times> string) list \<Rightarrow> int" where
  "countUpTo targetNode targetOffset count [] = count"
| "countUpTo targetNode targetOffset count ((currentNode, textContent) # rest) =
    (if currentNode = targetNode then count + targetOffset
     else countUpTo targetNode targetOffset (count + int (length textContent)) rest)"

definition getTextOffsetInElement :: "NodeRef \<Rightarrow> Node list \<Rightarrow> NodeRef \<Rightarrow> int \<Rightarrow> int" where
  "getTextOffsetInElement root cs targetNode targetOffset =
    countUpTo targetNode targetOffset 0 (textRefs root 0 cs)"

text \<open>
  \<^verbatim>\<open>findSourcePosition\<close>: the body of its loop for one element \<open>el\<close> (\<open>atElement\<close>,
  \<open>None\<close> when the element lacks one of the two attributes), the loop over the
  ancestors (\<open>walkUp\<close>), and the choice of the first element.
\<close>

datatype Which = which_start | which_end

definition atElement :: "Node \<Rightarrow> NodeRef \<Rightarrow> NodeRef \<Rightarrow> int \<Rightarrow> Which \<Rightarrow> int option" where
  "atElement doc el node offset which =
    (case elementAt doc el of
       None \<Rightarrow> None
     | Some (d, cs) \<Rightarrow>
        (case (dataSourceStart d, dataSourceEnd d) of
           (Some sourceStart, Some sourceEnd) \<Rightarrow>
            (if which = which_start
             then Some (min (sourceStart + getTextOffsetInElement el cs node offset) sourceEnd)
             else Some (min (sourceStart + getTextOffsetInElement el cs node offset) sourceEnd))
         | _ \<Rightarrow> None))"

fun walkUp :: "Node \<Rightarrow> NodeRef \<Rightarrow> NodeRef \<Rightarrow> int \<Rightarrow> Which \<Rightarrow> int option" where
  "walkUp doc [] node offset which = atElement doc [] node offset which"
| "walkUp doc (i # parent) node offset which =
    (case atElement doc (i # parent) node offset which of
       Some position \<Rightarrow> Some position
     | None \<Rightarrow> walkUp doc parent node offset which)"

definition findSourcePosition :: "Node \<Rightarrow> NodeRef \<Rightarrow> int \<Rightarrow> Which \<Rightarrow> int option" where
  "findSourcePosition doc node offset which =
    (case elementAt doc node of
       Some el \<Rightarrow> walkUp doc node node offset which
     | None \<Rightarrow>
        (case node of
           [] \<Rightarrow> None
         | i # parent \<Rightarrow> walkUp doc parent node offset which))"

text \<open>
  What the program reads of the browser's selection: its ranges, each with its two
  boundary points, and the text \<^verbatim>\<open>selection.toString()\<close>.  A range is collapsed when
  its boundary points are equal.  \<^verbatim>\<open>getRangeAt(i)\<close> throws an \<^verbatim>\<open>IndexSizeError\<close>
  when the selection has no range of index \<open>i\<close>.
\<close>

record Range =
  startContainer :: NodeRef
  startOffset :: int
  endContainer :: NodeRef
  endOffset :: int

record Selection =
  ranges :: "Range list"
  toString :: string

datatype DOMException = IndexSizeError

definition rangeCount :: "Selection \<Rightarrow> nat" where
  "rangeCount selection = length (ranges selection)"

definition getRangeAt :: "Selection \<Rightarrow> nat \<Rightarrow> DOMException + Range" where
  "getRangeAt selection i =
    (if i < rangeCount selection then Inr (ranges selection ! i) else Inl IndexSizeError)"

definition collapsed :: "Range \<Rightarrow> bool" where
  "collapsed rng = (startContainer rng = endContainer rng \<and> startOffset rng = endOffset rng)"

text \<open>
  \<^verbatim>\<open>s.trim()\<close> removes white space and line terminators at both ends; of these the
  characters of one byte are listed.
\<close>

definition isWhiteSpace :: "char \<Rightarrow> bool" where
  "isWhiteSpace c =
    (c \<in> {CHR 0x09, CHR 0x0A, CHR 0x0B, CHR 0x0C, CHR 0x0D, CHR 0x20, CHR 0xA0})"

definition trim :: "string \<Rightarrow> string" where
  "trim s = rev (dropWhile isWhiteSpace (rev (dropWhile isWhiteSpace s)))"

text \<open>
  \<^verbatim>\<open>selectionToMarkdownRange\<close>.  The result \<open>Inr (Some (s, e, t))\<close> is the object
  \<^verbatim>\<open>{startOffset: s, endOffset: e, selectedText: t}\<close>, \<open>Inr None\<close> is \<^verbatim>\<open>null\<close>, and
  \<open>Inl\<close> is an exception that leaves the function.
\<close>

definition selectionToMarkdownRange ::
  "Node \<Rightarrow> Selection \<Rightarrow> NodeRef \<Rightarrow> DOMException + (int \<times> int \<times> string) option" where
  "selectionToMarkdownRange doc selection containerEl =
    (if rangeCount selection = 0 then Inr None
     else
      (case getRangeAt selection 0 of
         Inl exception \<Rightarrow> Inl exception
       | Inr rng \<Rightarrow>
          if collapsed rng then Inr None
          else if \<not> contains containerEl (startContainer rng)
               \<or> \<not> contains containerEl (endContainer rng) then Inr None
          else
           (let selectedText = trim (toString selection) in
            if selectedText = [] then Inr None
            else
             (let startPos = findSourcePosition doc (startContainer rng) (startOffset rng) which_start;
                  endPos = findSourcePosition doc (endContainer rng) (endOffset rng) which_end
              in case (startPos, endPos) of
                   (Some s, Some e) \<Rightarrow> Inr (Some (s, e, selectedText))
                 | _ \<Rightarrow> Inr None))))"

text \<open>
  The elements the loop of \<open>findSourcePosition\<close> visits for a node, nearest first, the
  source position an element carries, and the nearest visited element that carries one.
\<close>

fun ancestorsOrSelf :: "NodeRef \<Rightarrow> NodeRef list" where
  "ancestorsOrSelf [] = [[]]"
| "ancestorsOrSelf (i # parent) = (i # parent) # ancestorsOrSelf parent"

definition elementChain :: "Node \<Rightarrow> NodeRef \<Rightarrow> NodeRef list" where
  "elementChain doc node =
    (case elementAt doc node of
       Some el \<Rightarrow> ancestorsOrSelf node
     | None \<Rightarrow> (case node of [] \<Rightarrow> [] | i # parent \<Rightarrow> ancestorsOrSelf parent))"

definition positionAt :: "Node \<Rightarrow> NodeRef \<Rightarrow> (int \<times> int) option" where
  "positionAt doc el =
    (case elementAt doc el of
       None \<Rightarrow> None
     | Some (d, cs) \<Rightarrow>
        (case (dataSourceStart d, dataSourceEnd d) of
           (Some sourceStart, Some sourceEnd) \<Rightarrow> Some (sourceStart, sourceEnd)
         | _ \<Rightarrow> None))"

definition nearestPositioned :: "Node \<Rightarrow> NodeRef \<Rightarrow> NodeRef option" where
  "nearestPositioned doc node = List.find (\<lambda>el. positionAt doc el \<noteq> None) (elementChain doc node)"

section \<open>Notions used in the proofs\<close>




fun startsWithText :: "Node list \<Rightarrow> bool" where
  "startsWithText [] = False"
| "startsWithText (Text t # cs) = True"
| "startsWithText (Element d ds # cs) = False"






section \<open>Example documents\<close>

definition plain :: "string \<Rightarrow> ElementData" where
  "plain tag = \<lparr>tagName = tag, dataSourceStart = None, dataSourceEnd = None,
     dataAnnotationId = None, dataPointAnnotationId = None, active = False\<rparr>"

definition positioned :: "string \<Rightarrow> int \<Rightarrow> int \<Rightarrow> ElementData" where
  "positioned tag s e = \<lparr>tagName = tag, dataSourceStart = Some s, dataSourceEnd = Some e,
     dataAnnotationId = None, dataPointAnnotationId = None, active = False\<rparr>"





definition exampleDoc :: Node where
  "exampleDoc = Element (plain ''div'')
     [Element (positioned ''h1'' 0 7) [Text ''Title''],
      Text [CHR 0x0A],
      Element (positioned ''p'' 9 20) [Text ''hello world'']]"






text \<open>A selection inside one text node \<open>n\<close>, from offset \<open>a\<close> to offset \<open>b\<close>, of text \<open>s\<close>.\<close>

definition selectionIn :: "NodeRef \<Rightarrow> int \<Rightarrow> int \<Rightarrow> string \<Rightarrow> Selection" where
  "selectionIn n a b s =
    \<lparr>ranges = [\<lparr>startContainer = n, startOffset = a, endContainer = n, endOffset = b\<rparr>],
     toString = s\<rparr>"


section \<open>Properties of the offset shifter\<close>

lemma shiftAnnotations_Nil: "shiftAnnotations editStart editEnd newLength [] = []"
  by (simp add: shiftAnnotations_def)

lemma shiftAnnotations_Cons:
  "shiftAnnotations editStart editEnd newLength (a # prev) =
    (if fully_contained editStart editEnd a then []
     else if fully_before editStart editEnd a then [a]
     else if fully_after editStart editEnd a then [shifted (newLength - (editEnd - editStart)) a]
     else [])
    @ shiftAnnotations editStart editEnd newLength prev"
  by (simp add: shiftAnnotations_def fully_contained_def fully_before_def fully_after_def
      shifted_def Let_def)

lemma shiftAnnotations_append:
  "shiftAnnotations editStart editEnd newLength (xs @ ys) =
    shiftAnnotations editStart editEnd newLength xs @ shiftAnnotations editStart editEnd newLength ys"
  by (induction xs) (simp_all add: shiftAnnotations_Nil shiftAnnotations_Cons)

lemma shiftAnnotations_mid:
  "shiftAnnotations editStart editEnd newLength (xs @ a # ys) =
    shiftAnnotations editStart editEnd newLength xs
    @ (if fully_contained editStart editEnd a then []
       else if fully_before editStart editEnd a then [a]
       else if fully_after editStart editEnd a then [shifted (newLength - (editEnd - editStart)) a]
       else [])
    @ shiftAnnotations editStart editEnd newLength ys"
  by (simp add: shiftAnnotations_append shiftAnnotations_Cons)

lemma shiftAnnotations_map_filter:
  "shiftAnnotations editStart editEnd newLength prev =
      List.map_filter (outcome editStart editEnd newLength) prev"
  by (induction prev)
    (simp_all add: shiftAnnotations_Nil shiftAnnotations_Cons map_filter_simps outcome_def
      classify_def fully_contained_def fully_before_def fully_after_def)

lemma outcome_Some:
  assumes "outcome editStart editEnd newLength a = Some b"
  shows "(fully_before editStart editEnd a \<and> b = a)
    \<or> (fully_after editStart editEnd a \<and> b = shifted (newLength - (editEnd - editStart)) a)"
  using assms
  by (simp add: outcome_def classify_def fully_before_def fully_after_def split: if_splits)

lemma shiftAnnotations_member:
  assumes "b \<in> set (shiftAnnotations editStart editEnd newLength anns)"
  shows "\<exists>a \<in> set anns. (fully_before editStart editEnd a \<and> b = a)
    \<or> (fully_after editStart editEnd a \<and> b = shifted (newLength - (editEnd - editStart)) a)"
proof -
  from assms obtain a where "a \<in> set anns" "outcome editStart editEnd newLength a = Some b"
    by (auto simp: shiftAnnotations_map_filter List.map_filter_def)
  then show ?thesis using outcome_Some by blast
qed

lemma valid_offsets_kept:
  assumes "valid_offsets oldLength a" and "fully_before editStart editEnd a"
    and "editStart \<le> editEnd" and "editEnd \<le> oldLength" and "0 \<le> newLength"
  shows "valid_offsets (oldLength + newLength - (editEnd - editStart)) a"
  using assms by (simp add: valid_offsets_def fully_before_def)

lemma valid_offsets_shifted:
  assumes "valid_offsets oldLength a" and "fully_after editStart editEnd a"
    and "0 \<le> editStart" and "0 \<le> newLength"
  shows "valid_offsets (oldLength + newLength - (editEnd - editStart))
      (shifted (newLength - (editEnd - editStart)) a)"
  using assms by (simp add: valid_offsets_def fully_after_def shifted_def)

text \<open>
  Claim C1, as amended.  For every list of annotations and every edit, with
  \<open>delta = newLength - (editEnd - editStart)\<close>, the annotation \<open>a\<close> standing anywhere in
  the list (between \<open>xs\<close> and \<open>ys\<close>) is treated by the first of these tests it passes:
  contained in the edit (\<open>start \<ge> editStart\<close> and \<open>end \<le> editEnd\<close>), it is dropped;
  else before the edit (\<open>end \<le> editStart\<close>), it is unchanged; else after the edit
  (\<open>start \<ge> editEnd\<close>), both offsets are shifted by \<open>delta\<close>; else (partial overlap)
  it is dropped.  The four examples of the specification on \<open>{start:10, end:20}\<close> follow.
\<close>

theorem shiftAnnotations_by_case:
  "(fully_contained editStart editEnd a \<longrightarrow>
      shiftAnnotations editStart editEnd newLength (xs @ a # ys) =
        shiftAnnotations editStart editEnd newLength xs @ shiftAnnotations editStart editEnd newLength ys)
   \<and> (\<not> fully_contained editStart editEnd a \<and> fully_before editStart editEnd a \<longrightarrow>
      shiftAnnotations editStart editEnd newLength (xs @ a # ys) =
        shiftAnnotations editStart editEnd newLength xs @ a # shiftAnnotations editStart editEnd newLength ys)
   \<and> (\<not> fully_contained editStart editEnd a \<and> \<not> fully_before editStart editEnd a
        \<and> fully_after editStart editEnd a \<longrightarrow>
      shiftAnnotations editStart editEnd newLength (xs @ a # ys) =
        shiftAnnotations editStart editEnd newLength xs
          @ shifted (newLength - (editEnd - editStart)) a
          # shiftAnnotations editStart editEnd newLength ys)
   \<and> (partial_overlap editStart editEnd a \<longrightarrow>
      shiftAnnotations editStart editEnd newLength (xs @ a # ys) =
        shiftAnnotations editStart editEnd newLength xs @ shiftAnnotations editStart editEnd newLength ys)
   \<and> (markdownStartOffset a = 10 \<and> markdownEndOffset a = 20 \<longrightarrow>
        shiftAnnotations 5 8 1 [a] = [a\<lparr>markdownStartOffset := 8, markdownEndOffset := 18\<rparr>]
      \<and> shiftAnnotations 12 18 0 [a] = []
      \<and> shiftAnnotations 15 25 0 [a] = []
      \<and> shiftAnnotations 25 30 3 [a] = [a])"
  by (simp add: shiftAnnotations_mid shiftAnnotations_Cons shiftAnnotations_Nil partial_overlap_def
      fully_contained_def fully_before_def fully_after_def shifted_def)

theorem shiftAnnotations_by_case_witness:
  "shiftAnnotations 5 8 1 [annotation_at ''a'' range_kind 10 20] = [annotation_at ''a'' range_kind 8 18]
   \<and> shiftAnnotations 12 18 0 [annotation_at ''a'' range_kind 10 20] = []
   \<and> shiftAnnotations 15 25 0 [annotation_at ''a'' range_kind 10 20] = []
   \<and> shiftAnnotations 25 30 3 [annotation_at ''a'' range_kind 10 20] = [annotation_at ''a'' range_kind 10 20]
   \<and> shiftAnnotations 5 8 1
        [annotation_at ''c'' range_kind 6 7, annotation_at ''b'' range_kind 1 3,
         annotation_at ''a'' range_kind 10 20, annotation_at ''p'' range_kind 7 9]
      = [annotation_at ''b'' range_kind 1 3, annotation_at ''a'' range_kind 8 18]"
  using
    shiftAnnotations_by_case [of 5 8 "annotation_at ''c'' range_kind 6 7" 1 "[]"
      "[annotation_at ''b'' range_kind 1 3, annotation_at ''a'' range_kind 10 20,
        annotation_at ''p'' range_kind 7 9]"]
    shiftAnnotations_by_case [of 5 8 "annotation_at ''b'' range_kind 1 3" 1 "[]"
      "[annotation_at ''a'' range_kind 10 20, annotation_at ''p'' range_kind 7 9]"]
    shiftAnnotations_by_case [of 5 8 "annotation_at ''a'' range_kind 10 20" 1 "[]"
      "[annotation_at ''p'' range_kind 7 9]"]
    shiftAnnotations_by_case [of 5 8 "annotation_at ''p'' range_kind 7 9" 1 "[]" "[]"]
  by (simp add: annotation_at_def fully_contained_def fully_before_def fully_after_def
      partial_overlap_def shifted_def shiftAnnotations_Nil)

text \<open>
  Claim C1 as stated fails: the point annotation \<open>{start:5, end:5}\<close> has
  \<open>end \<le> editStart\<close> for the edit \<open>(5, 8, 1)\<close>, yet it is not left unchanged: the
  first filter drops it as contained in the edit.
\<close>

theorem shiftAnnotations_before_counterexample:
  "fully_before 5 8 (annotation_at ''p'' point_kind 5 5)
   \<and> shiftAnnotations 5 8 1 [annotation_at ''p'' point_kind 5 5] = []
   \<and> shiftAnnotations 5 8 1 [annotation_at ''p'' point_kind 5 5] \<noteq> [annotation_at ''p'' point_kind 5 5]"
  by (simp add: annotation_at_def fully_before_def shiftAnnotations_Cons shiftAnnotations_Nil
      fully_contained_def)




text \<open>
  Claim C4.  When every annotation has \<open>0 \<le> start \<le> end \<le> oldLength\<close> and the edit
  has \<open>0 \<le> editStart \<le> editEnd \<le> oldLength\<close> and \<open>newLength \<ge> 0\<close>, every
  annotation of the output has \<open>0 \<le> start \<le> end \<le> oldLength + newLength - (editEnd - editStart)\<close>.
\<close>

theorem shiftAnnotations_valid_offsets:
  assumes "\<forall>a \<in> set anns. valid_offsets oldLength a"
    and "0 \<le> editStart" and "editStart \<le> editEnd" and "editEnd \<le> oldLength"
    and "0 \<le> newLength"
  shows "\<forall>b \<in> set (shiftAnnotations editStart editEnd newLength anns).
      valid_offsets (oldLength + newLength - (editEnd - editStart)) b"
proof
  fix b
  assume "b \<in> set (shiftAnnotations editStart editEnd newLength anns)"
  then obtain a where a: "a \<in> set anns"
    and b: "(fully_before editStart editEnd a \<and> b = a)
    \<or> (fully_after editStart editEnd a \<and> b = shifted (newLength - (editEnd - editStart)) a)"
    using shiftAnnotations_member by blast
  from a assms(1) have v: "valid_offsets oldLength a" by blast
  from b show "valid_offsets (oldLength + newLength - (editEnd - editStart)) b"
  proof
    assume "fully_before editStart editEnd a \<and> b = a"
    with v assms show ?thesis by (simp add: valid_offsets_kept)
  next
    assume "fully_after editStart editEnd a \<and> b = shifted (newLength - (editEnd - editStart)) a"
    with v assms show ?thesis by (simp add: valid_offsets_shifted)
  qed
qed

theorem shiftAnnotations_valid_offsets_witness:
  "valid_offsets 30 (annotation_at ''b'' range_kind 1 3)
   \<and> valid_offsets 30 (annotation_at ''a'' range_kind 10 20)
   \<and> shiftAnnotations 5 8 1 [annotation_at ''b'' range_kind 1 3, annotation_at ''a'' range_kind 10 20]
       = [annotation_at ''b'' range_kind 1 3, annotation_at ''a'' range_kind 8 18]
   \<and> valid_offsets 28 (annotation_at ''b'' range_kind 1 3)
   \<and> valid_offsets 28 (annotation_at ''a'' range_kind 8 18)"
  using shiftAnnotations_valid_offsets [of
      "[annotation_at ''b'' range_kind 1 3, annotation_at ''a'' range_kind 10 20]" 30 5 8 1]
  by (simp add: annotation_at_def valid_offsets_def shiftAnnotations_Cons shiftAnnotations_Nil
      fully_contained_def fully_before_def fully_after_def shifted_def)

text \<open>
  Claim C10.  For a pure insertion at \<open>p\<close> (\<open>editStart = editEnd = p\<close>) and a
  zero-width annotation \<open>a\<close> anywhere in the list: at \<open>p\<close> it is removed, strictly
  before \<open>p\<close> it is unchanged, strictly after \<open>p\<close> both offsets grow by \<open>newLength\<close>.
\<close>

theorem shiftAnnotations_pure_insertion_zero_width:
  assumes "markdownStartOffset a = markdownEndOffset a"
  shows "(markdownStartOffset a = p \<longrightarrow>
      shiftAnnotations p p newLength (xs @ a # ys) =
        shiftAnnotations p p newLength xs @ shiftAnnotations p p newLength ys)
   \<and> (markdownStartOffset a < p \<longrightarrow>
      shiftAnnotations p p newLength (xs @ a # ys) =
        shiftAnnotations p p newLength xs @ a # shiftAnnotations p p newLength ys)
   \<and> (markdownStartOffset a > p \<longrightarrow>
      shiftAnnotations p p newLength (xs @ a # ys) =
        shiftAnnotations p p newLength xs
          @ a\<lparr>markdownStartOffset := markdownStartOffset a + newLength,
               markdownEndOffset := markdownEndOffset a + newLength\<rparr>
          # shiftAnnotations p p newLength ys)"
  using assms
  by (simp add: shiftAnnotations_mid fully_contained_def fully_before_def fully_after_def
      shifted_def)

theorem shiftAnnotations_pure_insertion_zero_width_witness:
  "shiftAnnotations 5 5 3
      [annotation_at ''x'' point_kind 2 2, annotation_at ''y'' point_kind 5 5,
       annotation_at ''z'' point_kind 7 7]
    = [annotation_at ''x'' point_kind 2 2, annotation_at ''z'' point_kind 10 10]"
  using
    shiftAnnotations_pure_insertion_zero_width [of "annotation_at ''x'' point_kind 2 2" 5 3 "[]"
      "[annotation_at ''y'' point_kind 5 5, annotation_at ''z'' point_kind 7 7]"]
    shiftAnnotations_pure_insertion_zero_width [of "annotation_at ''y'' point_kind 5 5" 5 3 "[]"
      "[annotation_at ''z'' point_kind 7 7]"]
    shiftAnnotations_pure_insertion_zero_width [of "annotation_at ''z'' point_kind 7 7" 5 3 "[]" "[]"]
  by (simp add: annotation_at_def shiftAnnotations_Nil)

section \<open>Properties of the sort\<close>

lemma insert_by_ascending:
  "insert_by (\<lambda>a b. f a - f b) x ys = insort_key f x ys" for f :: "'a \<Rightarrow> int"
  by (induction ys) simp_all

lemma insert_by_descending:
  "insert_by (\<lambda>a b. f b - f a) x ys = insort_key (\<lambda>a. - f a) x ys" for f :: "'a \<Rightarrow> int"
  by (induction ys) simp_all

lemma sort_js_ascending: "sort_js (\<lambda>a b. f a - f b) xs = sort_key f xs" for f :: "'a \<Rightarrow> int"
  by (induction xs) (simp_all add: sort_js_def insert_by_ascending)

lemma sort_js_descending:
  "sort_js (\<lambda>a b. f b - f a) xs = sort_key (\<lambda>a. - f a) xs" for f :: "'a \<Rightarrow> int"
  by (induction xs) (simp_all add: sort_js_def insert_by_descending)

section \<open>Properties of the export\<close>

lemma slice_index_nonneg:
  assumes "0 \<le> k"
  shows "slice_index len k = min (nat k) len"
  using assms unfolding slice_index_def by (cases "k \<le> int len") auto

lemma slice_prefix:
  assumes "0 \<le> k"
  shows "slice s 0 k = take (nat k) s"
proof -
  have "slice s 0 k = take (min (nat k) (length s)) s"
    by (simp add: slice_def slice_index_nonneg [OF assms] slice_index_nonneg [of 0] Let_def)
  then show ?thesis by (simp add: min_def)
qed

lemma slice_from_suffix:
  assumes "0 \<le> k"
  shows "slice_from s k = drop (nat k) s"
  by (simp add: slice_from_def slice_index_nonneg [OF assms] min_def)

lemma slice_insert:
  assumes "0 \<le> k"
  shows "slice s 0 k @ ins @ slice_from s k = insert_at (nat k) ins s"
  by (simp add: slice_prefix [OF assms] slice_from_suffix [OF assms] insert_at_def)

lemma export_step:
  assumes "0 \<le> insertion_offset a"
  shows "(let note = ''{'' @ note_ann a @ ''}'' in
          if kind a = point_kind then
            slice result 0 (markdownStartOffset a) @ note
              @ slice_from result (markdownStartOffset a)
          else
            slice result 0 (markdownEndOffset a) @ '' '' @ note
              @ slice_from result (markdownEndOffset a)) = export_round result a"
proof (cases "kind a")
  case range_kind
  with assms have "0 \<le> markdownEndOffset a" by (simp add: insertion_offset_def)
  from slice_insert [OF this, of result "'' {'' @ note_ann a @ ''}''"] range_kind
  show ?thesis by (simp add: export_round_def note_text_def insertion_offset_def)
next
  case point_kind
  with assms have "0 \<le> markdownStartOffset a" by (simp add: insertion_offset_def)
  from slice_insert [OF this, of result "''{'' @ note_ann a @ ''}''"] point_kind
  show ?thesis by (simp add: export_round_def note_text_def insertion_offset_def)
qed

lemma foldl_export_steps:
  assumes "\<forall>a \<in> set xs. 0 \<le> insertion_offset a"
  shows "foldl (\<lambda>result ann.
          let note = ''{'' @ note_ann ann @ ''}'' in
          if kind ann = point_kind then
            slice result 0 (markdownStartOffset ann) @ note
              @ slice_from result (markdownStartOffset ann)
          else
            slice result 0 (markdownEndOffset ann) @ '' '' @ note
              @ slice_from result (markdownEndOffset ann)) t xs = foldl export_round t xs"
  using assms
proof (induction xs arbitrary: t)
  case Nil
  show ?case by simp
next
  case (Cons a xs)
  from Cons.prems have a: "0 \<le> insertion_offset a" by simp
  from Cons.prems have xs: "\<forall>a \<in> set xs. 0 \<le> insertion_offset a" by simp
  show ?case
    unfolding foldl_Cons export_step [OF a] by (rule Cons.IH [OF xs])
qed

lemma generateExport_Nil: "generateExport t [] = t"
  by (simp add: generateExport_def)

lemma generateExport_rounds:
  assumes "\<forall>a \<in> set anns. 0 \<le> insertion_offset a"
  shows "generateExport t anns
    = foldl export_round t (sort_key (\<lambda>a. - markdownStartOffset a) anns)"
proof (cases anns)
  case Nil
  then show ?thesis by (simp add: generateExport_def)
next
  case (Cons a as)
  have "\<forall>a \<in> set (sort_key (\<lambda>a. - markdownStartOffset a) anns). 0 \<le> insertion_offset a"
    using assms by simp
  from foldl_export_steps [OF this] Cons show ?thesis
    by (simp add: generateExport_def sort_js_descending del: foldl_Cons)
qed

lemma concat_singletons: "p \<le> length t \<Longrightarrow> concat (map (\<lambda>k. take 1 (drop k t)) [0..<p]) = take p t"
proof (induction p)
  case 0
  show ?case by simp
next
  case (Suc p)
  have "take (p + 1) t = take p t @ take 1 (drop p t)" by (rule take_add)
  with Suc show ?case by simp
qed

lemma upt_split: "p < n \<Longrightarrow> [0..<n] = [0..<p] @ p # [Suc p..<n]"
  using upt_add_eq_append [of 0 p "n - p"] upt_conv_Cons [of p n] by simp

lemma insert_notes_empty: "insert_notes (\<lambda>k. []) t = t"
  using concat_singletons [of "length t" t] by (simp add: insert_notes_def)

lemma insert_notes_from:
  assumes "p \<le> length t" and "\<forall>k < p. notes k = []"
  shows "insert_notes notes t
    = take p t @ notes p @ take 1 (drop p t)
        @ concat (map (\<lambda>k. notes k @ take 1 (drop k t)) [Suc p..<Suc (length t)])"
proof -
  from assms(1) have "p < Suc (length t)" by simp
  then have split: "[0..<Suc (length t)] = [0..<p] @ p # [Suc p..<Suc (length t)]"
    by (rule upt_split)
  have "concat (map (\<lambda>k. notes k @ take 1 (drop k t)) [0..<p])
      = concat (map (\<lambda>k. take 1 (drop k t)) [0..<p])"
    using assms(2) by (intro arg_cong [where f = concat] map_cong) simp_all
  also have "\<dots> = take p t"
    by (rule concat_singletons [OF assms(1)])
  finally have front: "concat (map (\<lambda>k. notes k @ take 1 (drop k t)) [0..<p]) = take p t" .
  have "concat (map (\<lambda>k. notes k @ take 1 (drop k t)) ([0..<p] @ p # [Suc p..<Suc (length t)]))
      = concat (map (\<lambda>k. notes k @ take 1 (drop k t)) [0..<p]) @ notes p @ take 1 (drop p t)
        @ concat (map (\<lambda>k. notes k @ take 1 (drop k t)) [Suc p..<Suc (length t)])"
    by (simp del: upt_Suc)
  then show ?thesis
    unfolding insert_notes_def split front .
qed

lemma insert_at_insert_notes:
  assumes "p \<le> length t" and "\<forall>k < p. notes k = []"
  shows "insert_at p s (insert_notes notes t) = insert_notes (notes(p := s @ notes p)) t"
proof -
  define rest where "rest = take 1 (drop p t)
      @ concat (map (\<lambda>k. notes k @ take 1 (drop k t)) [Suc p..<Suc (length t)])"
  have a: "insert_notes notes t = take p t @ notes p @ rest"
    unfolding rest_def by (rule insert_notes_from [OF assms])
  from assms(1) have len: "length (take p t) = p" by simp
  have b: "insert_at p s (take p t @ notes p @ rest) = take p t @ s @ notes p @ rest"
    unfolding insert_at_def using len by simp
  have "concat (map (\<lambda>k. (notes(p := s @ notes p)) k @ take 1 (drop k t))
        [Suc p..<Suc (length t)])
      = concat (map (\<lambda>k. notes k @ take 1 (drop k t)) [Suc p..<Suc (length t)])"
    by (intro arg_cong [where f = concat] map_cong) auto
  moreover have "\<forall>k < p. (notes(p := s @ notes p)) k = []"
    using assms(2) by simp
  ultimately have "insert_notes (notes(p := s @ notes p)) t = take p t @ s @ notes p @ rest"
    using insert_notes_from [OF assms(1), of "notes(p := s @ notes p)"]
    by (simp add: rest_def del: upt_Suc)
  with a b show ?thesis by simp
qed

lemma notes_at_snoc:
  "notes_at (xs @ [a]) = (notes_at xs)
    (nat (insertion_offset a) := (if 0 \<le> insertion_offset a then note_text a else [])
       @ notes_at xs (nat (insertion_offset a)))"
  by (rule ext) (auto simp: notes_at_def)

lemma rounds_insert_notes:
  assumes "\<forall>a \<in> set xs. 0 \<le> insertion_offset a \<and> insertion_offset a \<le> int (length t)"
    and "sorted (rev (map insertion_offset xs))"
  shows "foldl export_round t xs = insert_notes (notes_at xs) t"
  using assms
proof (induction xs rule: rev_induct)
  case Nil
  show ?case by (simp add: notes_at_def insert_notes_empty)
next
  case (snoc a xs)
  from snoc.prems(2) have low: "\<forall>b \<in> set xs. insertion_offset a \<le> insertion_offset b"
    and srt: "sorted (rev (map insertion_offset xs))"
    by simp_all
  from snoc.prems(1) have a: "0 \<le> insertion_offset a" "insertion_offset a \<le> int (length t)"
    and xs: "\<forall>a \<in> set xs. 0 \<le> insertion_offset a \<and> insertion_offset a \<le> int (length t)"
    by simp_all
  define p where "p = nat (insertion_offset a)"
  from a have p: "p \<le> length t" by (simp add: p_def)
  have empty: "\<forall>k < p. notes_at xs k = []"
  proof (intro allI impI)
    fix k assume "k < p"
    with a have "int k < insertion_offset a" by (simp add: p_def)
    with low have "filter (\<lambda>b. insertion_offset b = int k) xs = []"
      by (auto simp: filter_empty_conv)
    then show "notes_at xs k = []" by (simp add: notes_at_def)
  qed
  have "foldl export_round t (xs @ [a]) = export_round (insert_notes (notes_at xs) t) a"
    using snoc.IH [OF xs srt] by simp
  also have "\<dots> = insert_at p (note_text a) (insert_notes (notes_at xs) t)"
    by (simp add: export_round_def p_def)
  also have "\<dots> = insert_notes ((notes_at xs)(p := note_text a @ notes_at xs p)) t"
    by (rule insert_at_insert_notes [OF p empty])
  also have "(notes_at xs)(p := note_text a @ notes_at xs p) = notes_at (xs @ [a])"
    using a by (simp add: notes_at_snoc p_def)
  finally show ?case .
qed

text \<open>
  Where no note goes in behind one that was put in before it, \<open>generateExport\<close> is the
  export format of the specification: the insertion indices lie in the source text and
  do not grow along the order in which the annotations are taken.  With no annotations
  the source text comes back unchanged, and the specification's scenario gives the
  expected string.
\<close>

lemma generateExport_unnested:
  assumes "\<forall>a \<in> set anns. 0 \<le> insertion_offset a \<and> insertion_offset a \<le> int (length t)"
    and "sorted (rev (map insertion_offset (sort_key (\<lambda>a. - markdownStartOffset a) anns)))"
  shows "generateExport t anns = format_spec t anns"
proof -
  from assms(1) have "\<forall>a \<in> set anns. 0 \<le> insertion_offset a" by simp
  from generateExport_rounds [OF this]
  have "generateExport t anns
      = foldl export_round t (sort_key (\<lambda>a. - markdownStartOffset a) anns)" .
  also have "\<dots> = insert_notes (notes_at (sort_key (\<lambda>a. - markdownStartOffset a) anns)) t"
    using assms by (intro rounds_insert_notes) simp_all
  finally show ?thesis by (simp add: format_spec_def)
qed

lemma generateExport_example:
  "generateExport ''The API uses REST endpoints for all operations.''
      [\<lparr>id_ann = i, kind = range_kind, selectedText = ''REST endpoints'',
        note_ann = ''Consider GraphQL'', markdownStartOffset = 13, markdownEndOffset = 27,
        createdAt = c\<rparr>]
    = ''The API uses REST endpoints {Consider GraphQL} for all operations.''"
  by (simp add: generateExport_def sort_js_def slice_def slice_from_def slice_index_def)

lemma format_spec_example:
  "format_spec ''The API uses REST endpoints for all operations.''
      [(annotation_at ''1'' range_kind 13 27)\<lparr>note_ann := ''Consider GraphQL''\<rparr>]
    = ''The API uses REST endpoints {Consider GraphQL} for all operations.''"
  by code_simp

text \<open>
  Claim C2 fails on the code for annotations of which one lies inside the other.  The
  notes are put in one after the other, each at its index in the text as extended so
  far, and the descending order of start keeps an earlier note out of the way of a later
  one only when the later index is no greater.  For the source of the specification's
  scenario with the range 13 to 27 (note \<^verbatim>\<open>outer\<close>) and the range 18 to 22 (note
  \<^verbatim>\<open>inner\<close>) the inner note goes in at 22, and index 27 of the extended text lies
  inside it: the outer note lands within the inner note.  The format of the
  specification has \<^verbatim>\<open> {inner}\<close> at index 22 and \<^verbatim>\<open> {outer}\<close> at index 27 of the
  source.  The same happens for two ranges of one start when the shorter was created
  first.
\<close>

theorem generateExport_nested_ranges:
  "generateExport ''The API uses REST endpoints for all operations.'' [outer_note, inner_note]
      = ''The API uses REST endp {inn {outer}er}oints for all operations.''
   \<and> format_spec ''The API uses REST endpoints for all operations.'' [outer_note, inner_note]
      = ''The API uses REST endp {inner}oints {outer} for all operations.''
   \<and> generateExport ''The API uses REST endpoints for all operations.''
        [(annotation_at ''1'' range_kind 13 17)\<lparr>note_ann := ''b''\<rparr>,
         (annotation_at ''2'' range_kind 13 27)\<lparr>note_ann := ''a''\<rparr>]
      = ''The API uses REST {b} endpo {a}ints for all operations.''
   \<and> format_spec ''The API uses REST endpoints for all operations.''
        [(annotation_at ''1'' range_kind 13 17)\<lparr>note_ann := ''b''\<rparr>,
         (annotation_at ''2'' range_kind 13 27)\<lparr>note_ann := ''a''\<rparr>]
      = ''The API uses REST {b} endpoints {a} for all operations.''"
  by code_simp

section \<open>Properties of the store\<close>

text \<open>
  Claim C8.  \<open>deleteAnnotation i\<close> keeps exactly the annotations whose id is not \<open>i\<close>;
  it sets the active id to \<open>None\<close> when that was \<open>i\<close> and leaves it unchanged
  otherwise; an active id that referred to a stored annotation still does afterwards.
\<close>

theorem deleteAnnotation_clears_active:
  "annotations (deleteAnnotation i st) = filter (\<lambda>a. id_ann a \<noteq> i) (annotations st)
   \<and> i \<notin> id_ann ` set (annotations (deleteAnnotation i st))
   \<and> (activeAnnotationId st = Some i \<longrightarrow> activeAnnotationId (deleteAnnotation i st) = None)
   \<and> (activeAnnotationId st \<noteq> Some i \<longrightarrow>
        activeAnnotationId (deleteAnnotation i st) = activeAnnotationId st)
   \<and> ((\<forall>j. activeAnnotationId st = Some j \<longrightarrow> j \<in> id_ann ` set (annotations st)) \<longrightarrow>
       (\<forall>j. activeAnnotationId (deleteAnnotation i st) = Some j \<longrightarrow>
          j \<in> id_ann ` set (annotations (deleteAnnotation i st))))"
  by (auto simp: deleteAnnotation_def)

theorem deleteAnnotation_clears_active_witness:
  "deleteAnnotation ''a''
      \<lparr>annotations = [annotation_at ''a'' range_kind 1 2, annotation_at ''b'' range_kind 3 4],
       activeAnnotationId = Some ''a''\<rparr>
    = \<lparr>annotations = [annotation_at ''b'' range_kind 3 4], activeAnnotationId = None\<rparr>
   \<and> deleteAnnotation ''a''
      \<lparr>annotations = [annotation_at ''a'' range_kind 1 2, annotation_at ''b'' range_kind 3 4],
       activeAnnotationId = Some ''b''\<rparr>
    = \<lparr>annotations = [annotation_at ''b'' range_kind 3 4], activeAnnotationId = Some ''b''\<rparr>"
  using
    deleteAnnotation_clears_active [of "''a''"
      "\<lparr>annotations = [annotation_at ''a'' range_kind 1 2, annotation_at ''b'' range_kind 3 4],
       activeAnnotationId = Some ''a''\<rparr>"]
    deleteAnnotation_clears_active [of "''a''"
      "\<lparr>annotations = [annotation_at ''a'' range_kind 1 2, annotation_at ''b'' range_kind 3 4],
       activeAnnotationId = Some ''b''\<rparr>"]
  by (simp add: deleteAnnotation_def annotation_at_def)

section \<open>Properties of the display order\<close>

lemma sortedAnnotations_sort_key:
  "sortedAnnotations st = sort_key markdownStartOffset (annotations st)"
  by (simp add: sortedAnnotations_def sort_js_ascending)

lemma display_le_trans_key:
  assumes "display_le y z" and "markdownStartOffset x \<le> markdownStartOffset y"
    and "createdAt x \<le> createdAt z"
  shows "display_le x z"
  using assms by (auto simp: display_le_def)

lemma insort_key_display:
  assumes "sorted_wrt display_le ys" and "\<forall>y \<in> set ys. createdAt x \<le> createdAt y"
  shows "sorted_wrt display_le (insort_key markdownStartOffset x ys)"
  using assms
proof (induction ys)
  case Nil
  show ?case by simp
next
  case (Cons y ys)
  show ?case
  proof (cases "markdownStartOffset x \<le> markdownStartOffset y")
    case True
    have "display_le x y"
      using True Cons.prems(2) by (auto simp: display_le_def)
    moreover have "display_le x z" if "z \<in> set ys" for z
    proof -
      from Cons.prems(1) that have "display_le y z" by simp
      moreover from Cons.prems(2) that have "createdAt x \<le> createdAt z" by simp
      ultimately show ?thesis using True display_le_trans_key by blast
    qed
    ultimately show ?thesis using True Cons.prems(1) by simp
  next
    case False
    then have "display_le y x" by (simp add: display_le_def)
    moreover from Cons.prems have "sorted_wrt display_le (insort_key markdownStartOffset x ys)"
      by (intro Cons.IH) simp_all
    ultimately show ?thesis using False Cons.prems(1) by (auto simp: set_insort_key)
  qed
qed

lemma sort_key_display:
  assumes "sorted (map createdAt xs)"
  shows "sorted_wrt display_le (sort_key markdownStartOffset xs)"
  using assms
proof (induction xs)
  case Nil
  show ?case by simp
next
  case (Cons x xs)
  from Cons.prems have "sorted (map createdAt xs)" by simp
  then have "sorted_wrt display_le (sort_key markdownStartOffset xs)" by (rule Cons.IH)
  moreover from Cons.prems have "\<forall>y \<in> set (sort_key markdownStartOffset xs). createdAt x \<le> createdAt y"
    by simp
  ultimately show ?case by (simp add: insort_key_display)
qed

lemma shiftAnnotations_map_filter':
  "shiftAnnotations editStart editEnd newLength prev =
    map (\<lambda>a. if fully_before editStart editEnd a then a
             else shifted (newLength - (editEnd - editStart)) a)
      (filter (\<lambda>a. \<not> fully_contained editStart editEnd a
          \<and> (fully_before editStart editEnd a \<or> fully_after editStart editEnd a)) prev)"
  by (induction prev) (simp_all add: shiftAnnotations_Nil shiftAnnotations_Cons)

lemma createdAt_shiftAnnotations:
  "map createdAt (shiftAnnotations editStart editEnd newLength prev) =
    map createdAt (filter (\<lambda>a. \<not> fully_contained editStart editEnd a
          \<and> (fully_before editStart editEnd a \<or> fully_after editStart editEnd a)) prev)"
  by (simp add: shiftAnnotations_map_filter' shifted_def comp_def if_distrib [of createdAt])

lemma sorted_filter_append:
  assumes "sorted (map f xs @ r)"
  shows "sorted (map f (filter P xs) @ r)"
  using assms by (auto simp: sorted_append intro: sorted_filter)

lemma apply_op_createdAt:
  assumes "sorted (map createdAt (annotations st) @ clock_readings (opn # ops))"
  shows "sorted (map createdAt (annotations (apply_op st opn)) @ clock_readings ops)"
proof (cases opn)
  case (AddAnnotation uuid now sel nt s e k)
  with assms show ?thesis by (simp add: addAnnotation_def)
next
  case (UpdateAnnotation i nt)
  have eq: "map createdAt (annotations (apply_op st opn)) = map createdAt (annotations st)"
    unfolding UpdateAnnotation apply_op.simps updateAnnotation_def
    by (simp add: comp_def if_distrib [of createdAt])
  from assms show ?thesis unfolding eq using UpdateAnnotation by simp
next
  case (DeleteAnnotation i)
  with assms show ?thesis by (simp add: deleteAnnotation_def sorted_filter_append)
next
  case (ShiftAnnotations editStart editEnd newLength)
  with assms show ?thesis by (simp add: createdAt_shiftAnnotations sorted_filter_append)
next
  case (SetActiveAnnotationId i)
  with assms show ?thesis by simp
qed

lemma foldl_apply_op_createdAt:
  assumes "sorted (map createdAt (annotations st) @ clock_readings ops)"
  shows "sorted (map createdAt (annotations (foldl apply_op st ops)))"
  using assms
proof (induction ops arbitrary: st)
  case Nil
  then show ?case by simp
next
  case (Cons opn ops)
  from apply_op_createdAt [OF Cons.prems] show ?case by (simp add: Cons.IH)
qed

lemma run_createdAt:
  assumes "sorted (clock_readings ops)"
  shows "sorted (map createdAt (annotations (run ops)))"
  unfolding run_def using assms by (intro foldl_apply_op_createdAt) (simp add: initialStore_def)

text \<open>
  Claim C6, as amended.  After every sequence of store operations the exposed list is
  sorted ascending by start offset, holds the stored annotations, and keeps annotations
  of equal start in their stored (insertion) order.  When the clock readings given to
  the creations never decrease, that order is ascending by \<open>(start, createdAt)\<close>.
\<close>

theorem sortedAnnotations_display_order:
  "sorted (map markdownStartOffset (sortedAnnotations (run ops)))
   \<and> set (sortedAnnotations (run ops)) = set (annotations (run ops))
   \<and> filter (\<lambda>a. markdownStartOffset a = k) (sortedAnnotations (run ops))
       = filter (\<lambda>a. markdownStartOffset a = k) (annotations (run ops))
   \<and> (sorted (clock_readings ops) \<longrightarrow> sorted_wrt display_le (sortedAnnotations (run ops)))"
  by (simp add: sortedAnnotations_sort_key sort_key_stable sort_key_display run_createdAt)

theorem sortedAnnotations_display_order_witness:
  "sorted (clock_readings
      [AddAnnotation ''a'' 3 ''t'' ''n'' 4 6 range_kind,
       AddAnnotation ''b'' 5 ''t'' ''n'' 0 1 range_kind,
       AddAnnotation ''c'' 5 ''t'' ''n'' 0 2 range_kind])
   \<and> map id_ann (sortedAnnotations (run
      [AddAnnotation ''a'' 3 ''t'' ''n'' 4 6 range_kind,
       AddAnnotation ''b'' 5 ''t'' ''n'' 0 1 range_kind,
       AddAnnotation ''c'' 5 ''t'' ''n'' 0 2 range_kind])) = [''b'', ''c'', ''a'']
   \<and> sorted_wrt display_le (sortedAnnotations (run
      [AddAnnotation ''a'' 3 ''t'' ''n'' 4 6 range_kind,
       AddAnnotation ''b'' 5 ''t'' ''n'' 0 1 range_kind,
       AddAnnotation ''c'' 5 ''t'' ''n'' 0 2 range_kind]))"
  using sortedAnnotations_display_order [of
      "[AddAnnotation ''a'' 3 ''t'' ''n'' 4 6 range_kind,
       AddAnnotation ''b'' 5 ''t'' ''n'' 0 1 range_kind,
       AddAnnotation ''c'' 5 ''t'' ''n'' 0 2 range_kind]"]
  by (simp add: run_def initialStore_def addAnnotation_def sortedAnnotations_def sort_js_def)

text \<open>
  Claim C6 as stated fails: the comparator looks at the start offset only.  Two
  annotations of equal start, the second created with an earlier clock reading, are
  listed in insertion order, that is with \<open>createdAt\<close> descending.
\<close>

theorem sortedAnnotations_createdAt_counterexample:
  "map (\<lambda>a. (id_ann a, markdownStartOffset a, createdAt a)) (sortedAnnotations (run
      [AddAnnotation ''a'' 5 ''t'' ''n'' 0 1 range_kind,
       AddAnnotation ''b'' 3 ''t'' ''n'' 0 1 range_kind])) = [(''a'', 0, 5), (''b'', 0, 3)]
   \<and> \<not> sorted_wrt display_le (sortedAnnotations (run
      [AddAnnotation ''a'' 5 ''t'' ''n'' 0 1 range_kind,
       AddAnnotation ''b'' 3 ''t'' ''n'' 0 1 range_kind]))"
  by (simp add: run_def initialStore_def addAnnotation_def sortedAnnotations_def sort_js_def
      display_le_def)

section \<open>Properties of the highlight projection\<close>

lemma cons_text_empty [simp]: "cons_text [] cs = cs"
  by (cases "([] :: string, cs)" rule: cons_text.cases) simp_all

lemma cons_text_cons_text: "cons_text t (cons_text u cs) = cons_text (t @ u) cs"
  by (cases "(u, cs)" rule: cons_text.cases) auto






lemma normalize_idem: "normalize_dom (normalize_dom xs) = normalize_dom xs"
proof (induction xs rule: normalize_dom.induct)
  case 1
  show ?case by simp
next
  case (2 t cs)
  have "normalize_dom (cons_text t ys) = cons_text t (normalize_dom ys)" for ys
    by (cases "(t, ys)" rule: cons_text.cases) (auto simp: cons_text_cons_text)
  with 2 show ?case by simp
next
  case (3 d ds cs)
  then show ?case by simp
qed










lemma startsWithText_cons_text:
  "startsWithText (cons_text t cs) = (t \<noteq> [] \<or> startsWithText cs)"
  by (cases "(t, cs)" rule: cons_text.cases) auto
































section \<open>Properties of the selection mapping\<close>

lemma atElement_None:
  "atElement doc el node offset which = None \<longleftrightarrow> positionAt doc el = None"
  by (auto simp: atElement_def positionAt_def split: option.splits)

lemma walkUp_find:
  "walkUp doc el node offset which =
    (case List.find (\<lambda>r. positionAt doc r \<noteq> None) (ancestorsOrSelf el) of
       None \<Rightarrow> None
     | Some r \<Rightarrow> atElement doc r node offset which)"
proof (induction el)
  case Nil
  show ?case
    using atElement_None [of doc "[]" node offset which] by (cases "positionAt doc []") auto
next
  case (Cons i parent)
  show ?case
  proof (cases "positionAt doc (i # parent)")
    case None
    with atElement_None [of doc "i # parent" node offset which] Cons show ?thesis by simp
  next
    case (Some p)
    with atElement_None [of doc "i # parent" node offset which]
    obtain position where "atElement doc (i # parent) node offset which = Some position"
      by (cases "atElement doc (i # parent) node offset which") auto
    with Some show ?thesis by simp
  qed
qed

lemma findSourcePosition_nearest:
  "findSourcePosition doc node offset which =
    (case nearestPositioned doc node of
       None \<Rightarrow> None
     | Some el \<Rightarrow> atElement doc el node offset which)"
  unfolding findSourcePosition_def nearestPositioned_def elementChain_def
  by (auto simp: walkUp_find split: option.splits list.splits)

lemma findSourcePosition_None:
  "findSourcePosition doc node offset which = None
    \<longleftrightarrow> (\<forall>el \<in> set (elementChain doc node). positionAt doc el = None)"
proof -
  have 1: "findSourcePosition doc node offset which = None \<longleftrightarrow> nearestPositioned doc node = None"
  proof (cases "nearestPositioned doc node")
    case None
    then show ?thesis by (simp add: findSourcePosition_nearest)
  next
    case (Some el)
    then have "positionAt doc el \<noteq> None"
      by (auto simp: nearestPositioned_def find_Some_iff)
    with Some atElement_None [of doc el node offset which] show ?thesis
      by (simp add: findSourcePosition_nearest)
  qed
  have 2: "nearestPositioned doc node = None
      \<longleftrightarrow> (\<forall>el \<in> set (elementChain doc node). positionAt doc el = None)"
    unfolding nearestPositioned_def find_None_iff Ball_def
    by (simp only: not_ex de_Morgan_conj not_not imp_conv_disj)
  show ?thesis by (rule trans [OF 1 2])
qed

lemma getRangeAt_first:
  "rangeCount selection \<noteq> 0 \<Longrightarrow> getRangeAt selection 0 = Inr (hd (ranges selection))"
  by (cases "ranges selection") (simp_all add: getRangeAt_def rangeCount_def)

lemma selectionToMarkdownRange_returns:
  "\<exists>r. selectionToMarkdownRange doc selection containerEl = Inr r"
proof (cases "rangeCount selection = 0")
  case True
  then show ?thesis by (simp add: selectionToMarkdownRange_def)
next
  case False
  from getRangeAt_first [OF False] False show ?thesis
    by (auto simp: selectionToMarkdownRange_def Let_def split: option.splits)
qed

lemma selectionToMarkdownRange_None:
  "selectionToMarkdownRange doc selection containerEl = Inr None \<longleftrightarrow>
    rangeCount selection = 0
    \<or> (\<exists>rng. getRangeAt selection 0 = Inr rng \<and>
         (collapsed rng
          \<or> \<not> contains containerEl (startContainer rng)
          \<or> \<not> contains containerEl (endContainer rng)
          \<or> trim (toString selection) = []
          \<or> findSourcePosition doc (startContainer rng) (startOffset rng) which_start = None
          \<or> findSourcePosition doc (endContainer rng) (endOffset rng) which_end = None))"
proof (cases "rangeCount selection = 0")
  case True
  then show ?thesis by (simp add: selectionToMarkdownRange_def)
next
  case False
  from getRangeAt_first [OF False] False show ?thesis
    by (auto simp: selectionToMarkdownRange_def Let_def split: option.splits)
qed















text \<open>
  Claim C9.  \<open>selectionToMarkdownRange\<close> never throws: it always returns.  It returns
  \<^verbatim>\<open>null\<close> exactly when there is no range, the range is collapsed, an endpoint lies
  outside the container, the selected text is empty after trimming, or an endpoint
  cannot be resolved; and an endpoint cannot be resolved exactly when none of the
  elements from it up to the root carries both source positions.
\<close>

theorem selectionToMarkdownRange_null:
  "(\<exists>r. selectionToMarkdownRange doc selection containerEl = Inr r)
   \<and> (selectionToMarkdownRange doc selection containerEl = Inr None \<longleftrightarrow>
      rangeCount selection = 0
      \<or> (\<exists>rng. getRangeAt selection 0 = Inr rng \<and>
           (collapsed rng
            \<or> \<not> contains containerEl (startContainer rng)
            \<or> \<not> contains containerEl (endContainer rng)
            \<or> trim (toString selection) = []
            \<or> findSourcePosition doc (startContainer rng) (startOffset rng) which_start = None
            \<or> findSourcePosition doc (endContainer rng) (endOffset rng) which_end = None)))
   \<and> (findSourcePosition doc node offset which = None
      \<longleftrightarrow> (\<forall>el \<in> set (elementChain doc node). positionAt doc el = None))"
  by (intro conjI selectionToMarkdownRange_returns selectionToMarkdownRange_None
      findSourcePosition_None)

theorem selectionToMarkdownRange_null_witness:
  "elementChain exampleDoc [1] = [[]] \<and> positionAt exampleDoc [] = None
   \<and> findSourcePosition exampleDoc [1] 0 which_start = None
   \<and> selectionToMarkdownRange exampleDoc
        \<lparr>ranges = [\<lparr>startContainer = [1], startOffset = 0, endContainer = [0, 2], endOffset = 5\<rparr>],
         toString = [CHR 0x0A] @ ''hello''\<rparr> [] = Inr None
   \<and> trim '' '' = []
   \<and> selectionToMarkdownRange exampleDoc (selectionIn [0, 2] 5 6 '' '') [] = Inr None
   \<and> selectionToMarkdownRange exampleDoc \<lparr>ranges = [], toString = []\<rparr> [] = Inr None
   \<and> selectionToMarkdownRange exampleDoc (selectionIn [0, 2] 0 5 ''hello'') []
      = Inr (Some (9, 14, ''hello''))"
proof -
  let ?outside = "\<lparr>ranges =
      [\<lparr>startContainer = [1], startOffset = 0, endContainer = [0, 2], endOffset = 5\<rparr>],
    toString = [CHR 0x0A] @ ''hello''\<rparr>"
  have 1: "elementChain exampleDoc [1] = [[]]" by code_simp
  have 2: "positionAt exampleDoc [] = None" by code_simp
  have 3: "trim '' '' = []" by code_simp
  have 4: "selectionToMarkdownRange exampleDoc (selectionIn [0, 2] 0 5 ''hello'') []
      = Inr (Some (9, 14, ''hello''))" by code_simp
  have 5: "getRangeAt ?outside 0
      = Inr \<lparr>startContainer = [1], startOffset = 0, endContainer = [0, 2], endOffset = 5\<rparr>"
    by (simp add: getRangeAt_def rangeCount_def)
  have 6: "getRangeAt (selectionIn [0, 2] 5 6 '' '') 0
      = Inr \<lparr>startContainer = [0, 2], startOffset = 5, endContainer = [0, 2], endOffset = 6\<rparr>"
    by (simp add: getRangeAt_def rangeCount_def selectionIn_def)
  have 7: "rangeCount \<lparr>ranges = [], toString = []\<rparr> = 0" by (simp add: rangeCount_def)
  have a: "findSourcePosition exampleDoc [1] 0 which_start = None"
    using selectionToMarkdownRange_null [of exampleDoc ?outside "[]" "[1]" 0 which_start] 1 2
    by simp
  have b: "selectionToMarkdownRange exampleDoc ?outside [] = Inr None"
    using selectionToMarkdownRange_null [of exampleDoc ?outside "[]" "[1]" 0 which_start] 5 a
    by simp
  have c: "selectionToMarkdownRange exampleDoc (selectionIn [0, 2] 5 6 '' '') [] = Inr None"
    using selectionToMarkdownRange_null
      [of exampleDoc "selectionIn [0, 2] 5 6 '' ''" "[]" "[1]" 0 which_start] 6 3
    by (simp add: selectionIn_def)
  have d: "selectionToMarkdownRange exampleDoc \<lparr>ranges = [], toString = []\<rparr> [] = Inr None"
    using selectionToMarkdownRange_null
      [of exampleDoc "\<lparr>ranges = [], toString = []\<rparr>" "[]" "[1]" 0 which_start] 7
    by simp
  from 1 2 3 4 a b c d show ?thesis by simp
qed

end
